theory Spec2Isabelle
  imports Complex_Main "HOL-Library.Word" "HOL-Library.Finite_Map"
begin

section \<open>Dynamic ban score (connmgr/dynamicbanscore.go)\<close>

subsection \<open>Machine types\<close>

text \<open>
  The methods \<open>Int\<close>, \<open>Increase\<close> and \<open>Reset\<close> hold the mutex for their whole body, so a
  call is one step on the state; \<open>Int\<close> and \<open>Increase\<close> pass the current time to \<open>int\<close>
  and \<open>increase\<close>, which are modelled with the time as an argument.

  The Go types of the source: \<open>uint32\<close> and \<open>int64\<close> are words, whose arithmetic wraps
  around as Go's does. A \<open>time.Time\<close> enters the code only through \<open>t.Unix()\<close>, so a point
  in time is its number of Unix seconds, an \<open>int64\<close>.

  A \<open>float64\<close> is modelled by the real number it denotes. Comparison of floats is then
  comparison of reals, and every \<open>uint32\<close> converts to a float exactly. What the source
  does not contain is taken as a parameter: the rounding of an exact result to the
  nearest float (\<open>rnd\<close>, applied by every floating-point multiplication, addition and
  conversion from an integer), the standard library's \<open>math.Exp\<close>, and the result of
  converting to \<open>uint32\<close> a float outside the range of \<open>uint32\<close>, which Go leaves to the
  implementation. Infinities and NaN are not values of the model; a multiplication
  followed by an addition is rounded twice (no fused multiply-add).
\<close>

type_synonym uint32 = "32 word"
type_synonym int64 = "64 word"
type_synonym float64 = real

record float64_ops =
  rnd :: "real \<Rightarrow> float64"
  math_Exp :: "float64 \<Rightarrow> float64"
  uint32_oob :: "float64 \<Rightarrow> uint32"

text \<open>Floating-point multiplication and addition: the exact result, rounded.\<close>

definition fmul :: "float64_ops \<Rightarrow> float64 \<Rightarrow> float64 \<Rightarrow> float64" where
  "fmul A x y = rnd A (x * y)"

definition fadd :: "float64_ops \<Rightarrow> float64 \<Rightarrow> float64 \<Rightarrow> float64" where
  "fadd A x y = rnd A (x + y)"

text \<open>The conversions \<open>float64(i)\<close> of an integer and \<open>float64(w)\<close> of a \<open>uint32\<close>.\<close>

definition float64_of_int :: "float64_ops \<Rightarrow> int \<Rightarrow> float64" where
  "float64_of_int A i = rnd A (of_int i)"

definition float64_of_uint32 :: "uint32 \<Rightarrow> float64" where
  "float64_of_uint32 w = of_nat (unat w)"

text \<open>
  The conversion \<open>uint32(x)\<close> of a float: the fraction is discarded (truncation towards
  zero) when the result fits; otherwise the result is the implementation's.
\<close>

definition uint32_of :: "float64_ops \<Rightarrow> float64 \<Rightarrow> uint32" where
  "uint32_of A x =
     (if 0 \<le> x \<and> x < 4294967296 then word_of_int \<lfloor>x\<rfloor>
      else if - 1 < x \<and> x < 0 then 0
      else uint32_oob A x)"

text \<open>
  Exact arithmetic: nothing is rounded and \<open>math.Exp\<close> is the exponential function.
  It is the instance at which the theorems that constrain the arithmetic are applied.
\<close>

definition exact :: float64_ops where
  "exact = \<lparr>rnd = (\<lambda>x. x), math_Exp = exp, uint32_oob = (\<lambda>x. word_of_int \<lfloor>x\<rfloor>)\<rparr>"

text \<open>
  What the numerical results below ask of the arithmetic. Go's \<open>float64\<close> is IEEE 754
  binary64: it represents every integer up to \<open>2^53\<close> and rounds to nearest, with a
  relative error of at most \<open>2^-53\<close> in its normal range; \<open>math.Exp\<close> is accurate to
  about one unit in the last place. The predicate asks for less: integers up to \<open>2^32\<close>
  are exact, and rounding and \<open>math.Exp\<close> have a relative error of at most \<open>2^-48\<close> on
  the ranges the code reaches.
\<close>

definition float64_accurate :: "float64_ops \<Rightarrow> bool" where
  "float64_accurate A \<longleftrightarrow>
     (\<forall>i :: int. \<bar>i\<bar> \<le> 2 ^ 32 \<longrightarrow> rnd A (of_int i) = of_int i) \<and>
     (\<forall>x. 1 / 2 ^ 64 \<le> \<bar>x\<bar> \<and> \<bar>x\<bar> \<le> 2 ^ 64 \<longrightarrow> \<bar>rnd A x - x\<bar> \<le> \<bar>x\<bar> / 2 ^ 48) \<and>
     (\<forall>x. - 64 \<le> x \<and> x \<le> 0 \<longrightarrow> \<bar>math_Exp A x - exp x\<bar> \<le> exp x / 2 ^ 48)"

text \<open>
  An arithmetic within these bounds in which \<open>math.Exp\<close> falls short of the exponential
  function by a relative \<open>2^-49\<close>, less than one unit in the last place.
\<close>

definition short_exp :: float64_ops where
  "short_exp = \<lparr>rnd = (\<lambda>x. x), math_Exp = (\<lambda>x. exp x * (1 - 1 / 2 ^ 49)),
     uint32_oob = (\<lambda>x. word_of_int \<lfloor>x\<rfloor>)\<rparr>"

subsection \<open>Constants and decay factors\<close>

definition Halflife :: real where
  "Halflife = 60"

text \<open>
  \<open>math.Ln2\<close> is the standard library's constant for the natural logarithm of 2.
  \<open>lambda = math.Ln2 / Halflife\<close> is a constant expression of Go, evaluated exactly and
  rounded once where it is used as a \<open>float64\<close>.
\<close>

definition math_Ln2 :: real where
  "math_Ln2 = ln 2"

definition lambda :: "float64_ops \<Rightarrow> float64" where
  "lambda A = rnd A (math_Ln2 / Halflife)"

definition Lifetime :: int64 where
  "Lifetime = 1800"

definition precomputedLen :: nat where
  "precomputedLen = 64"

text \<open>The expression \<open>math.Exp(-1.0 * float64(i) * lambda)\<close> of \<open>init\<close> and of \<open>decayFactor\<close>.\<close>

definition decay_expr :: "float64_ops \<Rightarrow> int \<Rightarrow> float64" where
  "decay_expr A i = math_Exp A (fmul A (fmul A (- 1) (float64_of_int A i)) (lambda A))"

text \<open>The table that \<open>init\<close> fills, one entry for each index of the array.\<close>

definition precomputedFactor :: "float64_ops \<Rightarrow> float64 list" where
  "precomputedFactor A = map (\<lambda>i. decay_expr A (int i)) [0..<precomputedLen]"

text \<open>
  \<open>decayFactor\<close>: the table below \<open>precomputedLen\<close>, the expression from there on. A
  negative \<open>t\<close> indexes the array out of range, which panics: the result is \<open>None\<close>.
\<close>

definition decayFactor :: "float64_ops \<Rightarrow> int64 \<Rightarrow> float64 option" where
  "decayFactor A t =
     (if t <s word_of_nat precomputedLen then
        (if 0 \<le>s t then Some (precomputedFactor A ! nat (sint t)) else None)
      else Some (decay_expr A (sint t)))"

subsection \<open>The score\<close>

record DynamicBanScore =
  lastUnix :: int64
  transient :: float64
  persistent :: uint32

text \<open>The zero value of the struct, ready for use.\<close>

definition zero_score :: DynamicBanScore where
  "zero_score = \<lparr>lastUnix = 0, transient = 0, persistent = 0\<rparr>"

definition Reset :: "DynamicBanScore \<Rightarrow> DynamicBanScore" where
  "Reset s = s\<lparr>persistent := 0, transient := 0, lastUnix := 0\<rparr>"

text \<open>The method \<open>int\<close>: the score at the time \<open>t\<close> (Unix seconds).\<close>

definition int_score :: "float64_ops \<Rightarrow> DynamicBanScore \<Rightarrow> int64 \<Rightarrow> uint32 option" where
  "int_score A s t =
     (let dt = t - lastUnix s in
      if transient s < 1 \<or> dt <s 0 \<or> Lifetime <s dt then Some (persistent s)
      else map_option (\<lambda>d. persistent s + uint32_of A (fmul A (transient s) d))
             (decayFactor A dt))"

text \<open>
  The method \<open>increase\<close>: the state after the call and the value returned, or \<open>None\<close>
  when \<open>decayFactor\<close> panics.
\<close>

definition increase ::
  "float64_ops \<Rightarrow> DynamicBanScore \<Rightarrow> uint32 \<Rightarrow> uint32 \<Rightarrow> int64 \<Rightarrow> (DynamicBanScore \<times> uint32) option"
where
  "increase A s persistent_delta transient_delta t =
     (let s1 = s\<lparr>persistent := persistent s + persistent_delta\<rparr>;
          tu = t;
          dt = tu - lastUnix s1
      in if 0 < transient_delta then
           (case (if Lifetime <s dt then Some (s1\<lparr>transient := 0\<rparr>)
                  else if 1 < transient s1 \<and> 0 <s dt then
                    map_option (\<lambda>d. s1\<lparr>transient := fmul A (transient s1) d\<rparr>) (decayFactor A dt)
                  else Some s1) of
              None \<Rightarrow> None
            | Some s2 \<Rightarrow>
                (let s3 = s2\<lparr>transient := fadd A (transient s2) (float64_of_uint32 transient_delta)\<rparr>;
                     s4 = s3\<lparr>lastUnix := tu\<rparr>
                 in Some (s4, persistent s4 + uint32_of A (transient s4))))
         else Some (s1, persistent s1 + uint32_of A (transient s1)))"

text \<open>
  The single formula of the specification, \<open>exp(-t * ln2 / H)\<close> with \<open>H = 60\<close>, as a
  function of the number of seconds.
\<close>

definition decay_formula :: "int \<Rightarrow> real" where
  "decay_formula t = exp (- of_int t * ln 2 / 60)"

section \<open>Signature cache (txscript/sigcache.go)\<close>

text \<open>
  The digest, the signature and the public key are values of other packages
  (\<open>chainhash.Hash\<close>, \<open>btcec.Signature\<close>, \<open>btcec.PublicKey\<close>): each is a type parameter
  of the model. The Go map is a finite map; \<open>maxEntries\<close> is an unsigned count. The
  methods hold the lock of the cache while they read or write the map, so a call is
  one step on the state.
\<close>

text \<open>
  Modelled from the spec: the method \<open>IsEqual\<close> of \<open>btcec.Signature\<close> and of
  \<open>btcec.PublicKey\<close>, which is not among the sources. The specification has \<open>exists\<close>
  perform "a second comparison of both the signature and public key for full equality".
\<close>

definition IsEqual :: "'a \<Rightarrow> 'a \<Rightarrow> bool" where
  "IsEqual a b \<longleftrightarrow> a = b"

record ('s, 'k) sigCacheEntry =
  sig :: 's
  pubKey :: 'k

record ('h, 's, 'k) SigCache =
  validSigs :: "('h, ('s, 'k) sigCacheEntry) fmap"
  maxEntries :: nat

definition NewSigCache :: "nat \<Rightarrow> ('h, 's, 'k) SigCache" where
  "NewSigCache n = \<lparr>validSigs = fmempty, maxEntries = n\<rparr>"

definition Exists :: "('h, 's, 'k) SigCache \<Rightarrow> 'h \<Rightarrow> 's \<Rightarrow> 'k \<Rightarrow> bool" where
  "Exists c sigHash sg pk =
     (case fmlookup (validSigs c) sigHash of
        None \<Rightarrow> False
      | Some entry \<Rightarrow> IsEqual (pubKey entry) pk \<and> IsEqual (sig entry) sg)"

text \<open>The number of entries of the map, \<open>len(s.validSigs)\<close>.\<close>

definition len :: "('h, 'e) fmap \<Rightarrow> nat" where
  "len m = fcard (fmdom m)"

text \<open>
  \<open>Add\<close>. The entry evicted is the first one of an iteration over the map, whose order
  Go leaves open: any key of the map can be the one, so \<open>Add\<close> is a relation between
  the cache before and after. An iteration over an empty map deletes nothing.
\<close>

inductive Add ::
  "('h, 's, 'k) SigCache \<Rightarrow> 'h \<Rightarrow> 's \<Rightarrow> 'k \<Rightarrow> ('h, 's, 'k) SigCache \<Rightarrow> bool"
where
  Add_disabled:
    "maxEntries c \<le> 0 \<Longrightarrow> Add c sigHash sg pk c"
| Add_room:
    "\<not> maxEntries c \<le> 0 \<Longrightarrow> \<not> maxEntries c < len (validSigs c) + 1 \<Longrightarrow>
     Add c sigHash sg pk
       (c\<lparr>validSigs := fmupd sigHash \<lparr>sig = sg, pubKey = pk\<rparr> (validSigs c)\<rparr>)"
| Add_evict:
    "\<not> maxEntries c \<le> 0 \<Longrightarrow> maxEntries c < len (validSigs c) + 1 \<Longrightarrow>
     sigEntry |\<in>| fmdom (validSigs c) \<Longrightarrow>
     Add c sigHash sg pk
       (c\<lparr>validSigs := fmupd sigHash \<lparr>sig = sg, pubKey = pk\<rparr> (fmdrop sigEntry (validSigs c))\<rparr>)"
| Add_evict_empty:
    "\<not> maxEntries c \<le> 0 \<Longrightarrow> maxEntries c < len (validSigs c) + 1 \<Longrightarrow>
     fmdom (validSigs c) = {||} \<Longrightarrow>
     Add c sigHash sg pk
       (c\<lparr>validSigs := fmupd sigHash \<lparr>sig = sg, pubKey = pk\<rparr> (validSigs c)\<rparr>)"

code_pred Add .

text \<open>The caches that a sequence of \<open>Add\<close> calls reaches from \<open>NewSigCache n\<close>.\<close>

inductive reachable :: "nat \<Rightarrow> ('h, 's, 'k) SigCache \<Rightarrow> bool" where
  reachable_new: "reachable n (NewSigCache n)"
| reachable_Add: "reachable n c \<Longrightarrow> Add c sigHash sg pk c' \<Longrightarrow> reachable n c'"

section \<open>Properties of the ban score\<close>

subsection \<open>Decay factors\<close>

lemma precomputedFactor_nth:
  "n < precomputedLen \<Longrightarrow> precomputedFactor A ! n = decay_expr A (int n)"
  by (simp add: precomputedFactor_def)

text \<open>No call with a non-negative argument panics, and the table agrees with the expression.\<close>

lemma decayFactor_nonneg:
  assumes "0 \<le>s t"
  shows "decayFactor A t = Some (decay_expr A (sint t))"
proof (cases "t <s word_of_nat precomputedLen")
  case True
  from assms have nn: "0 \<le> sint t" by (simp add: word_sle_eq)
  from True have "sint t < 64" by (simp add: word_sless_alt precomputedLen_def)
  with nn have "nat (sint t) < precomputedLen" by (simp add: precomputedLen_def)
  then have "precomputedFactor A ! nat (sint t) = decay_expr A (int (nat (sint t)))"
    by (rule precomputedFactor_nth)
  with nn True assms show ?thesis by (simp add: decayFactor_def)
next
  case False
  then show ?thesis by (simp add: decayFactor_def)
qed

lemma decayFactor_pos:
  "0 <s t \<Longrightarrow> decayFactor A t = Some (decay_expr A (sint t))"
  by (rule decayFactor_nonneg) (simp add: word_sless_alt word_sle_eq)

lemma fmul_exact: "fmul exact x y = x * y"
  by (simp add: fmul_def exact_def)

lemma fadd_exact: "fadd exact x y = x + y"
  by (simp add: fadd_def exact_def)

lemma decay_expr_exact: "decay_expr exact i = decay_formula i"
  by (simp add: decay_expr_def exact_def fmul_def float64_of_int_def lambda_def math_Ln2_def Halflife_def
      decay_formula_def)

text \<open>
  C7. For every non-negative number of seconds \<open>t\<close>, \<open>decayFactor\<close> returns the value of
  the one expression \<open>math.Exp(-1.0 * float64(t) * lambda)\<close>, whether \<open>t\<close> is below 64 and
  read from the precomputed table or computed on demand; in exact arithmetic that value
  is \<open>exp(-t * ln2 / 60)\<close>.
\<close>

theorem decayFactor_formula:
  "0 \<le>s t \<Longrightarrow>
     decayFactor A t = Some (decay_expr A (sint t)) \<and>
     decayFactor exact t = Some (decay_formula (sint t))"
proof -
  assume t: "0 \<le>s t"
  then have nn: "0 \<le> sint t" by (simp add: word_sle_eq)
  have both: "decayFactor B t = Some (decay_expr B (sint t))" for B
  proof (cases "t <s word_of_nat precomputedLen")
    case True
    \<comment> \<open>the precomputed table\<close>
    then have "nat (sint t) < precomputedLen"
      using nn by (simp add: word_sless_alt precomputedLen_def)
    then have "precomputedFactor B ! nat (sint t) = decay_expr B (int (nat (sint t)))"
      by (simp add: precomputedFactor_def)
    with nn have "precomputedFactor B ! nat (sint t) = decay_expr B (sint t)"
      by simp
    with True t show ?thesis by (simp add: decayFactor_def)
  next
    case False
    \<comment> \<open>computed on demand\<close>
    then show ?thesis by (simp add: decayFactor_def)
  qed
  have "decay_expr exact (sint t) = decay_formula (sint t)"
    by (simp add: decay_expr_def exact_def fmul_def float64_of_int_def lambda_def math_Ln2_def
        Halflife_def decay_formula_def)
  with both [of A] both [of exact] show ?thesis by simp
qed

theorem decayFactor_formula_witness:
  "0 \<le>s (5 :: int64) \<and> decayFactor exact 5 = Some (decay_formula 5) \<and>
   0 \<le>s (100 :: int64) \<and> decayFactor exact 100 = Some (decay_formula 100)"
proof -
  have a: "0 \<le>s (5 :: int64)" and b: "0 \<le>s (100 :: int64)"
    by (simp_all add: word_sle_eq)
  have c: "sint (5 :: int64) = 5" "sint (100 :: int64) = 100"
    by simp_all
  from decayFactor_formula [OF a, of exact, THEN conjunct2]
    decayFactor_formula [OF b, of exact, THEN conjunct2] a b
  show ?thesis by (simp only: c simp_thms)
qed

subsection \<open>Evaluating the score\<close>


text \<open>
  C8. Whatever the state that earlier calls have left, the score evaluated after \<open>Reset\<close>
  is 0, at every time.
\<close>

theorem Reset_score: "int_score A (Reset s) t = Some 0"
proof -
  have "transient (Reset s) < 1" and "persistent (Reset s) = 0"
    by (simp_all add: Reset_def)
  then show ?thesis
    by (simp add: int_score_def)
qed

subsection \<open>Increasing the score\<close>

text \<open>
  C4. Every call of \<open>increase\<close> returns, and adds \<open>persistent_delta\<close> to the persistent
  component. When \<open>transient_delta\<close> is not zero, \<open>lastUnix\<close> becomes \<open>t\<close> and
  \<open>transient_delta\<close> is added to: 0 if \<open>dt > Lifetime\<close>; else the transient multiplied by
  the decay factor of \<open>dt\<close> if \<open>dt > 0\<close> and the transient exceeds 1; else the transient
  as it is. The cases are tried in this order, as the source's \<open>else if\<close> does.
\<close>

theorem increase_semantics:
  "\<exists>s' r. increase A s pd td t = Some (s', r) \<and>
     persistent s' = persistent s + pd \<and>
     (td \<noteq> 0 \<longrightarrow>
        lastUnix s' = t \<and>
        transient s' =
          fadd A
            (if Lifetime <s t - lastUnix s then 0
             else if 0 <s t - lastUnix s \<and> 1 < transient s then
               fmul A (transient s) (decay_expr A (sint (t - lastUnix s)))
             else transient s)
            (float64_of_uint32 td))"
proof (cases "0 <s t - lastUnix s")
  case True
  then have "decayFactor A (t - lastUnix s) = Some (decay_expr A (sint (t - lastUnix s)))"
    by (rule decayFactor_pos)
  then show ?thesis
    by (simp add: increase_def Let_def word_greater_zero_iff)
next
  case False
  then show ?thesis
    by (simp add: increase_def Let_def word_greater_zero_iff)
qed

theorem increase_semantics_witness:
  "\<exists>s' r. increase exact \<lparr>lastUnix = 0, transient = 50, persistent = 100\<rparr> 1 10 60 = Some (s', r) \<and>
     persistent s' = 101 \<and> lastUnix s' = 60 \<and> transient s' = 50 * decay_formula 60 + 10"
  using increase_semantics [of exact "\<lparr>lastUnix = 0, transient = 50, persistent = 100\<rparr>" 1 10 60]
  by (simp add: Lifetime_def word_sless_alt decay_expr_exact fadd_exact fmul_exact
      float64_of_uint32_def)

text \<open>
  C10. A call with \<open>transient_delta = 0\<close> changes the persistent component only, and
  returns the new persistent component plus the stored transient converted to \<open>uint32\<close>,
  with no decay applied. The value returned can so be greater than the score evaluated
  at the same time on the state the call leaves: a transient of 50 stored at time 0 is
  still counted by a call at time 1801, where the score evaluated is 0.
\<close>

theorem increase_no_transient:
  "increase A s pd 0 t =
     Some (s\<lparr>persistent := persistent s + pd\<rparr>, persistent s + pd + uint32_of A (transient s)) \<and>
   (\<exists>s0 pd0 t0 s1 r v.
      increase A s0 pd0 0 t0 = Some (s1, r) \<and> int_score A s1 t0 = Some v \<and> v < r)"
proof -
  let ?s = "\<lparr>lastUnix = 0, transient = 50, persistent = 0\<rparr>"
  have 1: "increase A ?s 0 0 1801 = Some (?s, 50)"
    by (simp add: increase_def uint32_of_def)
  have 2: "int_score A ?s 1801 = Some 0"
    by (simp add: int_score_def Lifetime_def word_sless_alt)
  have "(0 :: uint32) < 50" by simp
  with 1 2 have "\<exists>s0 pd0 t0 s1 r v.
      increase A s0 pd0 0 t0 = Some (s1, r) \<and> int_score A s1 t0 = Some v \<and> v < r"
    by blast
  then show ?thesis
    by (simp add: increase_def)
qed




subsection \<open>Rounding errors\<close>

text \<open>
  The values that the tests of the repository check depend on how the arithmetic
  rounds. The lemmas of this subsection bound the decay factor after a whole number of
  half-lives, for every arithmetic that \<open>float64_accurate\<close> admits.
\<close>

lemma accurate_int:
  "float64_accurate A \<Longrightarrow> \<bar>i\<bar> \<le> 2 ^ 32 \<Longrightarrow> rnd A (of_int i) = of_int i"
  by (simp add: float64_accurate_def)

lemma accurate_rnd:
  "float64_accurate A \<Longrightarrow> 1 / 2 ^ 64 \<le> \<bar>x\<bar> \<Longrightarrow> \<bar>x\<bar> \<le> 2 ^ 64 \<Longrightarrow>
   \<bar>rnd A x - x\<bar> \<le> \<bar>x\<bar> / 2 ^ 48"
  by (simp add: float64_accurate_def)

lemma accurate_Exp:
  "float64_accurate A \<Longrightarrow> - 64 \<le> x \<Longrightarrow> x \<le> 0 \<Longrightarrow>
   \<bar>math_Exp A x - exp x\<bar> \<le> exp x / 2 ^ 48"
  by (simp add: float64_accurate_def)

lemma exact_accurate: "float64_accurate exact"
  by (simp add: float64_accurate_def exact_def)

lemma ln2_bounds: "1 / 2 \<le> ln (2 :: real)" "ln (2 :: real) \<le> 1"
proof -
  have "exp (1 / 2) \<le> (2 :: real)" by (rule exp_half_le2)
  then show "1 / 2 \<le> ln (2 :: real)" using ln_ge_iff [of 2 "1 / 2"] by simp
  show "ln (2 :: real) \<le> 1" using ln_le_minus_one [of "2 :: real"] by simp
qed

text \<open>The rounded constant lambda.\<close>

lemma lambda_accurate:
  assumes "float64_accurate A"
  shows "\<bar>lambda A - ln 2 / 60\<bar> \<le> 1 / (60 * 2 ^ 48)"
proof -
  have r: "1 / 2 ^ 64 \<le> \<bar>ln 2 / 60 :: real\<bar>" "\<bar>ln 2 / 60 :: real\<bar> \<le> 2 ^ 64"
    using ln2_bounds by simp_all
  have "\<bar>lambda A - ln 2 / 60\<bar> \<le> \<bar>ln 2 / 60 :: real\<bar> / 2 ^ 48"
    unfolding lambda_def math_Ln2_def Halflife_def by (rule accurate_rnd [OF assms r])
  also have "\<dots> \<le> 1 / (60 * 2 ^ 48)"
    using ln2_bounds by (simp add: field_simps)
  finally show ?thesis .
qed

text \<open>The argument of math.Exp for a number of seconds that is a multiple of 60.\<close>

lemma decay_arg_accurate:
  assumes A: "float64_accurate A" and k: "1 \<le> k" "k \<le> 30"
  shows "\<bar>fmul A (fmul A (- 1) (float64_of_int A (60 * k))) (lambda A) + of_int k * ln 2\<bar>
           \<le> 1 / 2 ^ 40"
proof -
  define L where "L = lambda A"
  define n :: real where "n = of_int (60 * k)"
  define x where "x = n * L"
  have n: "60 \<le> n" "n \<le> 1800" using k by (simp_all add: n_def)
  have "\<bar>60 * k\<bar> \<le> 2 ^ 32" using k by simp
  then have f: "float64_of_int A (60 * k) = n"
    unfolding float64_of_int_def n_def by (rule accurate_int [OF A])
  have "\<bar>- (60 * k)\<bar> \<le> 2 ^ 32" using k by simp
  then have "rnd A (of_int (- (60 * k))) = of_int (- (60 * k))"
    by (rule accurate_int [OF A])
  then have m: "fmul A (- 1) n = - n"
    by (simp add: fmul_def n_def)
  from lambda_accurate [OF A] have L: "\<bar>L - ln 2 / 60\<bar> \<le> 1 / (60 * 2 ^ 48)"
    by (simp add: L_def)
  have "(1 :: real) / (60 * 2 ^ 48) \<le> 1 / 100000" by simp
  with L have "\<bar>L - ln 2 / 60\<bar> \<le> 1 / 100000" by (rule order_trans)
  then have Llo: "1 / 121 \<le> L" and Lhi: "L \<le> 1 / 59"
    using ln2_bounds by linarith+
  have "60 * (1 / 121) \<le> n * L"
    using n Llo by (intro mult_mono) simp_all
  then have xlo: "60 / 121 \<le> x" by (simp add: x_def)
  have "n * L \<le> 1800 * (1 / 59)"
    using n Llo Lhi by (intro mult_mono) simp_all
  then have xhi: "x \<le> 1800 / 59" by (simp add: x_def)
  have r: "1 / 2 ^ 64 \<le> \<bar>- x\<bar>" "\<bar>- x\<bar> \<le> 2 ^ 64"
    using xlo xhi by simp_all
  have "\<bar>rnd A (- x) - (- x)\<bar> \<le> \<bar>- x\<bar> / 2 ^ 48"
    by (rule accurate_rnd [OF A r])
  also have "\<bar>- x\<bar> / 2 ^ 48 \<le> (1800 / 59) / 2 ^ 48"
    using xlo xhi by simp
  finally have e1: "\<bar>rnd A (- x) + x\<bar> \<le> (1800 / 59) / 2 ^ 48"
    by simp
  have "x - of_int k * ln 2 = n * (L - ln 2 / 60)"
    by (simp add: x_def n_def field_simps)
  then have "\<bar>x - of_int k * ln 2\<bar> = n * \<bar>L - ln 2 / 60\<bar>"
    using n by (simp add: abs_mult)
  also have "\<dots> \<le> 1800 * (1 / (60 * 2 ^ 48))"
    using n L by (intro mult_mono) simp_all
  finally have e2: "\<bar>x - of_int k * ln 2\<bar> \<le> 30 / 2 ^ 48" by simp
  have "\<bar>rnd A (- x) + of_int k * ln 2\<bar> \<le>
        \<bar>rnd A (- x) + x\<bar> + \<bar>x - of_int k * ln 2\<bar>"
    by linarith
  also have "\<dots> \<le> (1800 / 59) / 2 ^ 48 + 30 / 2 ^ 48"
    using e1 e2 by (rule add_mono)
  also have "\<dots> \<le> 1 / 2 ^ 40" by simp
  finally have "\<bar>rnd A (- x) + of_int k * ln 2\<bar> \<le> 1 / 2 ^ 40" .
  moreover have "fmul A (fmul A (- 1) (float64_of_int A (60 * k))) (lambda A) = rnd A (- x)"
    by (simp add: f m) (simp add: fmul_def x_def L_def)
  ultimately show ?thesis by simp
qed

lemma exp_neg_nat_ln2: "exp (- (of_nat k * ln 2)) = 1 / (2 :: real) ^ k"
  by (simp add: exp_minus exp_of_nat_mult inverse_eq_divide)

lemma exp_small:
  fixes h :: real
  assumes "\<bar>h\<bar> \<le> 1 / 2 ^ 40"
  shows "1 - 1 / 2 ^ 40 \<le> exp h" and "exp h \<le> 1 + 1 / 2 ^ 39"
proof -
  have "1 + h \<le> exp h" by (rule exp_ge_add_one_self)
  with assms show "1 - 1 / 2 ^ 40 \<le> exp h" by linarith
  show "exp h \<le> 1 + 1 / 2 ^ 39"
  proof (cases "0 \<le> h")
    case True
    moreover from assms have "h \<le> 1 / 2" by simp
    ultimately have "exp h \<le> 1 + 2 * h" by (rule real_exp_bound_lemma)
    with assms show ?thesis by simp
  next
    case False
    then have "exp h \<le> 1" by simp
    then show ?thesis by (rule order_trans) simp
  qed
qed

lemma near_one:
  fixes z e :: real
  assumes "1 - 1 / 2 ^ 40 \<le> e" "e \<le> 1 + 1 / 2 ^ 39" "\<bar>z - e\<bar> \<le> e / 2 ^ 48"
  shows "\<bar>z - 1\<bar> \<le> 1 / 2 ^ 38"
proof -
  from assms(2) have "e \<le> 2" by simp
  then have "e / 2 ^ 48 \<le> 1 / 2 ^ 47" by simp
  with assms(3) have 1: "\<bar>z - e\<bar> \<le> 1 / 2 ^ 47" by (rule order_trans)
  from assms(1,2) have 2: "\<bar>e - 1\<bar> \<le> 1 / 2 ^ 39" by (intro abs_leI) simp_all
  have "\<bar>z - 1\<bar> \<le> \<bar>z - e\<bar> + \<bar>e - 1\<bar>" by linarith
  also have "\<dots> \<le> 1 / 2 ^ 47 + 1 / 2 ^ 39" using 1 2 by (rule add_mono)
  also have "\<dots> \<le> 1 / 2 ^ 38" by simp
  finally show ?thesis .
qed

text \<open>The decay factor after \<open>k\<close> half-lives is \<open>1 / 2 ^ k\<close>, up to a relative error.\<close>

lemma decay_expr_accurate:
  assumes A: "float64_accurate A" and k: "1 \<le> k" "k \<le> 30"
  shows "\<bar>decay_expr A (60 * int k) * 2 ^ k - 1\<bar> \<le> 1 / 2 ^ 38"
proof -
  define y where "y = fmul A (fmul A (- 1) (float64_of_int A (60 * int k))) (lambda A)"
  define h where "h = y + of_nat k * ln 2"
  define e where "e = exp h"
  define d where "d = math_Exp A y"
  from k have "1 \<le> int k" "int k \<le> 30" by simp_all
  from decay_arg_accurate [OF A this] have h: "\<bar>h\<bar> \<le> 1 / 2 ^ 40"
    by (simp add: h_def y_def)
  have kl: "1 / 2 \<le> of_nat k * ln (2 :: real)"
  proof -
    have "1 * (1 / 2) \<le> of_nat k * ln (2 :: real)"
      using k ln2_bounds by (intro mult_mono) simp_all
    then show ?thesis by simp
  qed
  have ku: "of_nat k * ln (2 :: real) \<le> 30"
  proof -
    have "of_nat k * ln (2 :: real) \<le> 30 * 1"
      using k ln2_bounds by (intro mult_mono) simp_all
    then show ?thesis by simp
  qed
  have "(1 :: real) / 2 ^ 40 \<le> 1 / 4" by simp
  with h have "\<bar>h\<bar> \<le> 1 / 4" by (rule order_trans)
  with kl ku have y: "- 64 \<le> y" "y \<le> 0"
    unfolding h_def by linarith+
  have "y = h + - (of_nat k * ln 2)" by (simp add: h_def)
  then have "exp y = e * exp (- (of_nat k * ln 2))"
    by (simp only: exp_add e_def)
  then have ey: "exp y = e / 2 ^ k"
    by (simp add: exp_neg_nat_ln2)
  from exp_small [OF h] have e: "1 - 1 / 2 ^ 40 \<le> e" "e \<le> 1 + 1 / 2 ^ 39"
    by (simp_all add: e_def)
  from accurate_Exp [OF A y] have "\<bar>d - e / 2 ^ k\<bar> \<le> (e / 2 ^ k) / 2 ^ 48"
    by (simp add: d_def ey)
  then have "\<bar>d - e / 2 ^ k\<bar> * 2 ^ k \<le> (e / 2 ^ k) / 2 ^ 48 * 2 ^ k"
    by (rule mult_right_mono) simp
  moreover have "\<bar>d - e / 2 ^ k\<bar> * 2 ^ k = \<bar>(d - e / 2 ^ k) * 2 ^ k\<bar>"
    by (simp add: abs_mult)
  moreover have "(d - e / 2 ^ k) * 2 ^ k = d * 2 ^ k - e"
    by (simp add: left_diff_distrib)
  ultimately have "\<bar>d * 2 ^ k - e\<bar> \<le> e / 2 ^ 48"
    by simp
  with e have "\<bar>d * 2 ^ k - 1\<bar> \<le> 1 / 2 ^ 38"
    by (rule near_one)
  then show ?thesis
    by (simp add: decay_expr_def d_def y_def)
qed

lemma decay_expr_between:
  assumes A: "float64_accurate A" and k: "1 \<le> k" "k \<le> 30"
  shows "(1 - 1 / 2 ^ 38) / 2 ^ k \<le> decay_expr A (60 * int k)"
    and "decay_expr A (60 * int k) \<le> (1 + 1 / 2 ^ 38) / 2 ^ k"
proof -
  from decay_expr_accurate [OF assms]
  have "decay_expr A (60 * int k) * 2 ^ k - 1 \<le> 1 / 2 ^ 38"
    and "- (decay_expr A (60 * int k) * 2 ^ k - 1) \<le> 1 / 2 ^ 38"
    by (simp_all only: abs_le_iff)
  then have "1 - 1 / 2 ^ 38 \<le> decay_expr A (60 * int k) * 2 ^ k"
    and "decay_expr A (60 * int k) * 2 ^ k \<le> 1 + 1 / 2 ^ 38"
    by linarith+
  then show "(1 - 1 / 2 ^ 38) / 2 ^ k \<le> decay_expr A (60 * int k)"
    and "decay_expr A (60 * int k) \<le> (1 + 1 / 2 ^ 38) / 2 ^ k"
    by (simp_all only: pos_divide_le_eq pos_le_divide_eq zero_less_power zero_less_numeral)
qed

lemma fmul_between:
  assumes A: "float64_accurate A"
    and "1 / 2 ^ 64 \<le> x * y" "x * y \<le> 2 ^ 64"
  shows "x * y * (1 - 1 / 2 ^ 48) \<le> fmul A x y" and "fmul A x y \<le> x * y * (1 + 1 / 2 ^ 48)"
proof -
  from assms have p: "0 \<le> x * y" by simp
  with assms have "1 / 2 ^ 64 \<le> \<bar>x * y\<bar>" "\<bar>x * y\<bar> \<le> 2 ^ 64" by simp_all
  from accurate_rnd [OF A this] p have "\<bar>fmul A x y - x * y\<bar> \<le> x * y / 2 ^ 48"
    by (simp add: fmul_def)
  then have "fmul A x y - x * y \<le> x * y / 2 ^ 48" "- (fmul A x y - x * y) \<le> x * y / 2 ^ 48"
    by (simp_all only: abs_le_iff)
  then show "x * y * (1 - 1 / 2 ^ 48) \<le> fmul A x y" and "fmul A x y \<le> x * y * (1 + 1 / 2 ^ 48)"
    by (simp_all add: algebra_simps)
qed

text \<open>The largest transient, decayed over the whole Lifetime: just below 4.\<close>

lemma decayed_max_uint32:
  assumes A: "float64_accurate A"
  shows "3 \<le> fmul A 4294967295 (decay_expr A 1800)"
    and "fmul A 4294967295 (decay_expr A 1800) < 4"
proof -
  define d where "d = decay_expr A 1800"
  define q where "q = 4294967295 * d"
  from decay_expr_between [OF A, of 30]
  have d: "(1 - 1 / 2 ^ 38) / 2 ^ 30 \<le> d" "d \<le> (1 + 1 / 2 ^ 38) / 2 ^ 30"
    by (simp_all add: d_def)
  from d have q: "39 / 10 \<le> q" "q \<le> 4 - 1 / 2 ^ 31"
    by (simp_all add: q_def)
  then have r: "1 / 2 ^ 64 \<le> 4294967295 * d" "4294967295 * d \<le> 2 ^ 64"
    by (simp_all add: q_def)
  from fmul_between [OF A r]
  have p: "q * (1 - 1 / 2 ^ 48) \<le> fmul A 4294967295 d" "fmul A 4294967295 d \<le> q * (1 + 1 / 2 ^ 48)"
    by (simp_all add: q_def)
  have "3 \<le> 39 / 10 * (1 - 1 / 2 ^ 48 :: real)" by simp
  also have "\<dots> \<le> q * (1 - 1 / 2 ^ 48)"
    using q by (intro mult_right_mono) simp_all
  finally show "3 \<le> fmul A 4294967295 (decay_expr A 1800)"
    using p by (simp add: d_def)
  have "q * (1 + 1 / 2 ^ 48) \<le> (4 - 1 / 2 ^ 31) * (1 + 1 / 2 ^ 48)"
    using q by (intro mult_right_mono) simp_all
  also have "\<dots> < 4" by simp
  finally show "fmul A 4294967295 (decay_expr A 1800) < 4"
    using p by (simp add: d_def)
qed

lemma float64_of_uint32_bounds:
  "0 \<le> float64_of_uint32 w" "float64_of_uint32 w < 4294967296"
proof -
  show "0 \<le> float64_of_uint32 w" unfolding float64_of_uint32_def by (rule of_nat_0_le_iff)
  have "unat w < 2 ^ 32" using unsigned_less [of w] by simp
  then have "real (unat w) < real (2 ^ 32)" by (simp only: of_nat_less_iff)
  then show "float64_of_uint32 w < 4294967296" unfolding float64_of_uint32_def by simp
qed

lemma float64_of_uint32_int: "float64_of_uint32 w = of_int (uint w)"
  by (simp add: float64_of_uint32_def)

lemma uint32_of_in_range:
  "0 \<le> x \<Longrightarrow> x < 4294967296 \<Longrightarrow> uint32_of A x = word_of_int \<lfloor>x\<rfloor>"
  by (simp add: uint32_of_def)

lemma uint32_of_float64_of_uint32: "uint32_of A (float64_of_uint32 w) = w"
proof -
  have "\<lfloor>float64_of_uint32 w\<rfloor> = uint w"
    by (simp only: float64_of_uint32_int floor_of_int)
  with uint32_of_in_range [OF float64_of_uint32_bounds, of A w] show ?thesis
    by simp
qed

lemma float64_of_uint32_numeral:
  "float64_of_uint32 4294967295 = 4294967295" "float64_of_uint32 50 = 50"
  by (simp_all add: float64_of_uint32_def)

lemma fadd_zero_uint32:
  assumes "float64_accurate A"
  shows "fadd A 0 (float64_of_uint32 w) = float64_of_uint32 w"
proof -
  have "uint w < 2 ^ 32" using uint_lt2p [of w] by simp
  then have "\<bar>uint w\<bar> \<le> 2 ^ 32" by simp
  from accurate_int [OF assms this] show ?thesis
    by (simp add: fadd_def float64_of_uint32_int)
qed

text \<open>The first call on a fresh score, with a transient delta.\<close>

lemma increase_zero_score:
  assumes "float64_accurate A" and "td \<noteq> 0"
  shows "increase A zero_score pd td t =
           Some (\<lparr>lastUnix = t, transient = float64_of_uint32 td, persistent = pd\<rparr>, pd + td)"
  using assms(2)
  by (simp add: increase_def zero_score_def Let_def word_greater_zero_iff
      fadd_zero_uint32 [OF assms(1)] uint32_of_float64_of_uint32)

lemma dt_1800: "sint (1800 :: int64) = 1800" "\<not> (1800 :: int64) <s 0" "\<not> Lifetime <s 1800"
  "0 \<le>s (1800 :: int64)" "Lifetime <s 1801"
  by (simp_all add: word_sless_alt word_sle_eq Lifetime_def)

text \<open>
  C2. On a fresh score, after \<open>increase(0, MaxUint32)\<close> at a time \<open>t0\<close>, the score
  evaluated at \<open>t0 + 1800\<close>, the last second of the Lifetime, is 3: the transient
  \<open>2^32 - 1\<close> times the decay factor of 1800 seconds is just below 4, in every arithmetic
  within the error bounds, and the conversion truncates it. At \<open>t0 + 1801\<close> the score is 0.
\<close>

theorem lifetime_boundary:
  assumes "float64_accurate A"
  shows "\<exists>s r. increase A zero_score 0 4294967295 t0 = Some (s, r) \<and>
           int_score A s (t0 + 1800) = Some 3 \<and>
           int_score A s (t0 + 1801) = Some 0"
proof -
  let ?s = "\<lparr>lastUnix = t0, transient = 4294967295, persistent = 0\<rparr>"
  have "increase A zero_score 0 4294967295 t0 = Some (?s, 0 + 4294967295)"
    using increase_zero_score [OF assms, of 4294967295 0 t0]
    by (simp add: float64_of_uint32_numeral)
  moreover have "int_score A ?s (t0 + 1800) = Some 3"
  proof -
    from decayed_max_uint32 [OF assms]
    have "\<lfloor>fmul A 4294967295 (decay_expr A 1800)\<rfloor> = 3"
      by (intro floor_unique) simp_all
    moreover from decayed_max_uint32 [OF assms]
    have "0 \<le> fmul A 4294967295 (decay_expr A 1800)"
      and "fmul A 4294967295 (decay_expr A 1800) < 4294967296"
      by linarith+
    ultimately have "uint32_of A (fmul A 4294967295 (decay_expr A 1800)) = 3"
      by (simp add: uint32_of_def)
    then show ?thesis
      by (simp add: int_score_def dt_1800 decayFactor_nonneg)
  qed
  moreover have "int_score A ?s (t0 + 1801) = Some 0"
    by (simp add: int_score_def dt_1800)
  ultimately show ?thesis by blast
qed

theorem lifetime_boundary_witness:
  "increase exact zero_score 0 4294967295 1000 =
     Some (\<lparr>lastUnix = 1000, transient = 4294967295, persistent = 0\<rparr>, 4294967295) \<and>
   int_score exact \<lparr>lastUnix = 1000, transient = 4294967295, persistent = 0\<rparr> 2800 = Some 3 \<and>
   int_score exact \<lparr>lastUnix = 1000, transient = 4294967295, persistent = 0\<rparr> 2801 = Some 0"
proof -
  have a: "increase exact zero_score 0 4294967295 1000 =
     Some (\<lparr>lastUnix = 1000, transient = 4294967295, persistent = 0\<rparr>, 4294967295)"
    by (simp add: increase_def zero_score_def Lifetime_def word_sless_alt fadd_def exact_def
        float64_of_uint32_def uint32_of_def)
  from lifetime_boundary [OF exact_accurate, of 1000] a show ?thesis
    by auto
qed

lemma decayed_50_one_halflife:
  assumes A: "float64_accurate A"
  shows "24 \<le> fmul A 50 (decay_expr A 60)" and "fmul A 50 (decay_expr A 60) < 26"
proof -
  define d where "d = decay_expr A 60"
  from decay_expr_between [OF A, of 1]
  have d: "(1 - 1 / 2 ^ 38) / 2 \<le> d" "d \<le> (1 + 1 / 2 ^ 38) / 2"
    by (simp_all add: d_def)
  then have q: "249 / 10 \<le> 50 * d" "50 * d \<le> 251 / 10"
    by simp_all
  then have r: "1 / 2 ^ 64 \<le> 50 * d" "50 * d \<le> 2 ^ 64"
    by simp_all
  note p = fmul_between [OF A r]
  have "24 \<le> 249 / 10 * (1 - 1 / 2 ^ 48 :: real)" by simp
  also have "\<dots> \<le> 50 * d * (1 - 1 / 2 ^ 48)"
    using q by (intro mult_right_mono) simp_all
  finally show "24 \<le> fmul A 50 (decay_expr A 60)"
    using p by (simp add: d_def)
  have "50 * d * (1 + 1 / 2 ^ 48) \<le> 251 / 10 * (1 + 1 / 2 ^ 48)"
    using q by (intro mult_right_mono) simp_all
  also have "\<dots> < 26" by simp
  finally show "fmul A 50 (decay_expr A 60) < 26"
    using p by (simp add: d_def)
qed

lemma decayed_50_seven_halflives:
  assumes A: "float64_accurate A"
  shows "0 \<le> fmul A 50 (decay_expr A 420)" and "fmul A 50 (decay_expr A 420) < 1"
proof -
  define d where "d = decay_expr A 420"
  from decay_expr_between [OF A, of 7]
  have d: "(1 - 1 / 2 ^ 38) / 2 ^ 7 \<le> d" "d \<le> (1 + 1 / 2 ^ 38) / 2 ^ 7"
    by (simp_all add: d_def)
  then have q: "3 / 10 \<le> 50 * d" "50 * d \<le> 4 / 10"
    by simp_all
  then have r: "1 / 2 ^ 64 \<le> 50 * d" "50 * d \<le> 2 ^ 64"
    by simp_all
  note p = fmul_between [OF A r]
  have "0 \<le> 3 / 10 * (1 - 1 / 2 ^ 48 :: real)" by simp
  also have "\<dots> \<le> 50 * d * (1 - 1 / 2 ^ 48)"
    using q by (intro mult_right_mono) simp_all
  finally show "0 \<le> fmul A 50 (decay_expr A 420)"
    using p by (simp add: d_def)
  have "50 * d * (1 + 1 / 2 ^ 48) \<le> 4 / 10 * (1 + 1 / 2 ^ 48)"
    using q by (intro mult_right_mono) simp_all
  also have "\<dots> < 1" by simp
  finally show "fmul A 50 (decay_expr A 420) < 1"
    using p by (simp add: d_def)
qed

lemma dt_60: "sint (60 :: int64) = 60" "\<not> (60 :: int64) <s 0" "\<not> Lifetime <s 60"
  "0 \<le>s (60 :: int64)"
  by (simp_all add: word_sless_alt word_sle_eq Lifetime_def)

lemma dt_420: "sint (420 :: int64) = 420" "\<not> (420 :: int64) <s 0" "\<not> Lifetime <s 420"
  "0 \<le>s (420 :: int64)"
  by (simp_all add: word_sless_alt word_sle_eq Lifetime_def)

lemma floor_24_or_25:
  fixes x :: real
  assumes "24 \<le> x" "x < 26"
  shows "\<lfloor>x\<rfloor> = 24 \<or> \<lfloor>x\<rfloor> = 25"
proof (cases "x < 25")
  case True
  with assms have "\<lfloor>x\<rfloor> = 24" by (intro floor_unique) simp_all
  then show ?thesis ..
next
  case False
  with assms have "\<lfloor>x\<rfloor> = 25" by (intro floor_unique) simp_all
  then show ?thesis ..
qed

text \<open>
  C1 is the scenario of \<open>TestDynamicBanScoreDecay\<close>: \<open>increase(100, 50)\<close> on a fresh
  score, then the score one half-life and seven half-lives later. For every arithmetic
  within the error bounds the call returns 150 and the score after seven half-lives is
  100, but the score after one half-life is 124 or 125: the transient part is 50 times
  a factor next to one half, and the conversion to \<open>uint32\<close> truncates. Which of the two
  it is depends on the last bit of what \<open>math.Exp\<close> returns, which the source does not
  determine.
\<close>

lemma decay_test_accurate:
  assumes A: "float64_accurate A"
  shows "\<exists>s. increase A zero_score 100 50 t0 = Some (s, 150) \<and>
           (int_score A s (t0 + 60) = Some 124 \<or> int_score A s (t0 + 60) = Some 125) \<and>
           int_score A s (t0 + 420) = Some 100"
proof -
  let ?s = "\<lparr>lastUnix = t0, transient = 50, persistent = 100\<rparr>"
  have "increase A zero_score 100 50 t0 = Some (?s, 150)"
    using increase_zero_score [OF assms, of 50 100 t0]
    by (simp add: float64_of_uint32_numeral)
  moreover have "int_score A ?s (t0 + 60) = Some 124 \<or> int_score A ?s (t0 + 60) = Some 125"
  proof -
    note b = decayed_50_one_halflife [OF A]
    from b have "0 \<le> fmul A 50 (decay_expr A 60)" "fmul A 50 (decay_expr A 60) < 4294967296"
      by linarith+
    then have "uint32_of A (fmul A 50 (decay_expr A 60)) =
        word_of_int \<lfloor>fmul A 50 (decay_expr A 60)\<rfloor>"
      by (rule uint32_of_in_range)
    with floor_24_or_25 [OF b]
    have "uint32_of A (fmul A 50 (decay_expr A 60)) = 24 \<or>
          uint32_of A (fmul A 50 (decay_expr A 60)) = 25"
      by auto
    then show ?thesis
      by (auto simp add: int_score_def dt_60 decayFactor_nonneg)
  qed
  moreover have "int_score A ?s (t0 + 420) = Some 100"
  proof -
    note b = decayed_50_seven_halflives [OF A]
    from b have "\<lfloor>fmul A 50 (decay_expr A 420)\<rfloor> = 0"
      by (intro floor_unique) simp_all
    moreover from b have "fmul A 50 (decay_expr A 420) < 4294967296"
      by linarith
    ultimately have "uint32_of A (fmul A 50 (decay_expr A 420)) = 0"
      using b(1) by (simp add: uint32_of_in_range)
    then show ?thesis
      by (simp add: int_score_def dt_420 decayFactor_nonneg)
  qed
  ultimately show ?thesis by blast
qed

lemma decay_formula_halflives: "decay_formula (60 * int k) = 1 / 2 ^ k"
proof -
  have "decay_formula (60 * int k) = exp (- (of_nat k * ln 2))"
    by (simp add: decay_formula_def)
  then show ?thesis by (simp only: exp_neg_nat_ln2)
qed

text \<open>In exact arithmetic the score after one half-life is 125.\<close>

lemma decay_test_exact:
  "int_score exact \<lparr>lastUnix = t0, transient = 50, persistent = 100\<rparr> (t0 + 60) = Some 125"
proof -
  have "decay_formula 60 = 1 / 2"
    using decay_formula_halflives [of 1] by simp
  then have "fmul exact 50 (decay_expr exact 60) = 25"
    by (simp only: decay_expr_exact fmul_exact)
  then have "uint32_of exact (fmul exact 50 (decay_expr exact 60)) = 25"
    by (simp add: uint32_of_def)
  then show ?thesis
    by (simp add: int_score_def dt_60 decayFactor_nonneg)
qed

text \<open>
  In the arithmetic \<open>short_exp\<close>, which is within the error bounds as well, it is 124:
  the error bounds leave the value that C1 states for one half-life open.
\<close>

lemma short_exp_accurate: "float64_accurate short_exp"
proof -
  have "\<bar>exp x * (1 - 1 / 2 ^ 49) - exp x\<bar> \<le> exp x / 2 ^ 48" for x :: real
  proof -
    have "exp x * (1 - 1 / 2 ^ 49) - exp x = - (exp x / 2 ^ 49)"
      by (simp add: algebra_simps)
    then have "\<bar>exp x * (1 - 1 / 2 ^ 49) - exp x\<bar> = exp x / 2 ^ 49"
      by simp
    also have "\<dots> \<le> exp x / 2 ^ 48"
      by (intro divide_left_mono) simp_all
    finally show ?thesis .
  qed
  then show ?thesis
    by (simp add: float64_accurate_def short_exp_def)
qed

lemma decay_test_short_exp:
  "int_score short_exp \<lparr>lastUnix = t0, transient = 50, persistent = 100\<rparr> (t0 + 60) = Some 124"
proof -
  have "decay_expr short_exp 60 = decay_formula 60 * (1 - 1 / 2 ^ 49)"
    by (simp add: decay_expr_def short_exp_def fmul_def float64_of_int_def lambda_def math_Ln2_def
        Halflife_def decay_formula_def)
  also have "decay_formula 60 = 1 / 2"
    using decay_formula_halflives [of 1] by simp
  finally have p: "fmul short_exp 50 (decay_expr short_exp 60) = 25 * (1 - 1 / 2 ^ 49)"
    by (simp add: fmul_def short_exp_def)
  have f: "\<lfloor>25 * (1 - 1 / 2 ^ 49) :: real\<rfloor> = 24"
    by (intro floor_unique) simp_all
  have "0 \<le> (25 * (1 - 1 / 2 ^ 49) :: real)" "(25 * (1 - 1 / 2 ^ 49) :: real) < 4294967296"
    by simp_all
  then have "uint32_of short_exp (25 * (1 - 1 / 2 ^ 49)) = word_of_int \<lfloor>25 * (1 - 1 / 2 ^ 49) :: real\<rfloor>"
    by (rule uint32_of_in_range)
  then have "uint32_of short_exp (fmul short_exp 50 (decay_expr short_exp 60)) = 24"
    by (simp only: p f) simp
  then show ?thesis
    by (simp add: int_score_def dt_60 decayFactor_nonneg)
qed

section \<open>Properties of the signature cache\<close>

lemma len_fmupd_le: "len (fmupd h e m) \<le> len m + 1"
  by (simp add: len_def fcard_finsert_if)

lemma len_fmdrop: "v |\<in>| fmdom m \<Longrightarrow> len (fmdrop v m) + 1 = len m"
  using fcard_Suc_fminus1 [of v "fmdom m"] by (simp add: len_def)

lemma len_fmempty: "len fmempty = 0"
  by (simp add: len_def fcard_fempty)

lemma Add_zero: "Add c h sg pk c' \<Longrightarrow> maxEntries c = 0 \<Longrightarrow> c' = c"
  by (induction rule: Add.induct) simp_all

lemma Add_overflow:
  assumes "Add c h sg pk c'" and "0 < maxEntries c" and "maxEntries c < len (validSigs c) + 1"
  shows "\<exists>v. v |\<in>| fmdom (validSigs c) \<and>
           validSigs c' = fmupd h \<lparr>sig = sg, pubKey = pk\<rparr> (fmdrop v (validSigs c)) \<and>
           len (fmdrop v (validSigs c)) + 1 = len (validSigs c)"
  using assms
proof (cases rule: Add.cases)
  case (Add_evict v)
  with len_fmdrop [of v "validSigs c"] show ?thesis by auto
next
  case Add_evict_empty
  then have "len (validSigs c) = 0" by (simp add: len_def fcard_fempty)
  with assms show ?thesis by simp
qed simp_all

text \<open>The capacity is never changed, and never exceeded.\<close>

lemma reachable_bounded:
  "reachable n c \<Longrightarrow> maxEntries c = n \<and> len (validSigs c) \<le> n"
proof (induction rule: reachable.induct)
  case (reachable_new n)
  show ?case by (simp add: NewSigCache_def len_fmempty)
next
  case (reachable_Add n c h sg pk c')
  from reachable_Add.hyps(2) reachable_Add.IH show ?case
  proof (cases rule: Add.cases)
    case Add_disabled
    with reachable_Add.IH show ?thesis by simp
  next
    case Add_room
    with reachable_Add.IH len_fmupd_le [of h _ "validSigs c"] show ?thesis
      by (simp add: not_less) (meson le_trans)
  next
    case (Add_evict v)
    then have "len (fmdrop v (validSigs c)) + 1 = len (validSigs c)"
      using len_fmdrop [of v "validSigs c"] by simp
    with Add_evict reachable_Add.IH len_fmupd_le [of h _ "fmdrop v (validSigs c)"]
    show ?thesis by simp (metis le_trans)
  next
    case Add_evict_empty
    then have "len (validSigs c) = 0" by (simp add: len_def)
    with Add_evict_empty reachable_Add.IH show ?thesis by simp
  qed
qed

text \<open>
  C5, as stated, fails: in a cache of capacity zero \<open>Add\<close> stores nothing, and \<open>Exists\<close>
  is false for the entry just added.
\<close>

theorem SigCache_disabled_add_not_found:
  "Add (NewSigCache 0) (1 :: nat) (2 :: nat) (3 :: nat) (NewSigCache 0) \<and>
   \<not> Exists (NewSigCache 0 :: (nat, nat, nat) SigCache) 1 2 3"
proof
  show "Add (NewSigCache 0) (1 :: nat) (2 :: nat) (3 :: nat) (NewSigCache 0)"
    by (rule Add_disabled) (simp add: NewSigCache_def)
  show "\<not> Exists (NewSigCache 0 :: (nat, nat, nat) SigCache) 1 2 3"
    by (simp add: Exists_def IsEqual_def NewSigCache_def)
qed

text \<open>
  C5, amended. In a cache of capacity greater than zero, whatever its contents, \<open>Exists\<close>
  is true of the digest, signature and key of the \<open>Add\<close> just made. And in every cache,
  \<open>Exists\<close> is false for a signature that differs from the one stored under the digest,
  whatever the key: a digest that matches is not enough.
\<close>

theorem SigCache_add_exists:
  "(Add c sigHash sg pk c' \<and> 0 < maxEntries c \<longrightarrow> Exists c' sigHash sg pk) \<and>
   (fmlookup (validSigs d) h = Some entry \<and> sg' \<noteq> sig entry \<longrightarrow> \<not> Exists d h sg' pk')"
proof (intro conjI impI)
  assume "Add c sigHash sg pk c' \<and> 0 < maxEntries c"
  then have "Add c sigHash sg pk c'" and "0 < maxEntries c" by simp_all
  then have "fmlookup (validSigs c') sigHash = Some \<lparr>sig = sg, pubKey = pk\<rparr>"
  proof (cases rule: Add.cases)
    case Add_disabled
    with \<open>0 < maxEntries c\<close> show ?thesis by simp
  qed simp_all
  then show "Exists c' sigHash sg pk"
    by (simp add: Exists_def IsEqual_def)
next
  assume "fmlookup (validSigs d) h = Some entry \<and> sg' \<noteq> sig entry"
  then show "\<not> Exists d h sg' pk'"
    by (auto simp add: Exists_def IsEqual_def)
qed

theorem SigCache_add_exists_witness:
  "Add (NewSigCache 1) (1 :: nat) (2 :: nat) (3 :: nat)
     \<lparr>validSigs = fmupd 1 \<lparr>sig = 2, pubKey = 3\<rparr> fmempty, maxEntries = 1\<rparr> \<and>
   Exists \<lparr>validSigs = fmupd (1 :: nat) \<lparr>sig = 2 :: nat, pubKey = 3 :: nat\<rparr> fmempty, maxEntries = 1\<rparr> 1 2 3 \<and>
   \<not> Exists \<lparr>validSigs = fmupd (1 :: nat) \<lparr>sig = 2 :: nat, pubKey = 3 :: nat\<rparr> fmempty, maxEntries = 1\<rparr> 1 7 3"
proof -
  let ?c = "NewSigCache 1 :: (nat, nat, nat) SigCache"
  let ?c' = "\<lparr>validSigs = fmupd (1 :: nat) \<lparr>sig = 2 :: nat, pubKey = 3 :: nat\<rparr> fmempty, maxEntries = 1\<rparr>"
  have "Add ?c 1 2 3 (?c\<lparr>validSigs := fmupd 1 \<lparr>sig = 2, pubKey = 3\<rparr> (validSigs ?c)\<rparr>)"
    by (rule Add_room) (simp_all add: NewSigCache_def len_fmempty)
  then have a: "Add ?c 1 2 3 ?c'"
    by (simp add: NewSigCache_def)
  have m: "0 < maxEntries ?c" by (simp add: NewSigCache_def)
  have l: "fmlookup (validSigs ?c') 1 = Some \<lparr>sig = 2, pubKey = 3\<rparr>" by simp
  from SigCache_add_exists [of ?c 1 2 3 ?c' ?c' 1 "\<lparr>sig = 2, pubKey = 3\<rparr>" 7 3] a m l
  show ?thesis by simp
qed

text \<open>
  C6. A cache made by \<open>NewSigCache n\<close> holds at most \<open>n\<close> entries after any sequence of
  \<open>Add\<close> calls. When an \<open>Add\<close> finds that one more entry would exceed the capacity, it
  deletes one key of the map, and no more, before it stores the new entry. With a
  capacity of zero \<open>Add\<close> leaves the cache as it is.
\<close>

theorem SigCache_bounded:
  "(reachable n c \<longrightarrow> len (validSigs c) \<le> n) \<and>
   (Add c sigHash sg pk c' \<and> 0 < maxEntries c \<and> maxEntries c < len (validSigs c) + 1 \<longrightarrow>
      (\<exists>sigEntry. sigEntry |\<in>| fmdom (validSigs c) \<and>
         validSigs c' = fmupd sigHash \<lparr>sig = sg, pubKey = pk\<rparr> (fmdrop sigEntry (validSigs c)) \<and>
         len (fmdrop sigEntry (validSigs c)) + 1 = len (validSigs c))) \<and>
   (Add c sigHash sg pk c' \<and> maxEntries c = 0 \<longrightarrow> c' = c)"
proof (intro conjI impI)
  assume "reachable n c"
  then show "len (validSigs c) \<le> n"
    by (simp add: reachable_bounded)
next
  assume "Add c sigHash sg pk c' \<and> 0 < maxEntries c \<and> maxEntries c < len (validSigs c) + 1"
  then show "\<exists>sigEntry. sigEntry |\<in>| fmdom (validSigs c) \<and>
         validSigs c' = fmupd sigHash \<lparr>sig = sg, pubKey = pk\<rparr> (fmdrop sigEntry (validSigs c)) \<and>
         len (fmdrop sigEntry (validSigs c)) + 1 = len (validSigs c)"
    by (intro Add_overflow) simp_all
next
  assume "Add c sigHash sg pk c' \<and> maxEntries c = 0"
  then show "c' = c"
    by (intro Add_zero [of c sigHash sg pk]) simp_all
qed

theorem SigCache_bounded_witness:
  "reachable 1 \<lparr>validSigs = fmupd (4 :: nat) \<lparr>sig = 2 :: nat, pubKey = 3 :: nat\<rparr> fmempty, maxEntries = 1\<rparr> \<and>
   len (fmupd (4 :: nat) \<lparr>sig = 2 :: nat, pubKey = 3 :: nat\<rparr> fmempty) \<le> 1 \<and>
   Add \<lparr>validSigs = fmupd (4 :: nat) \<lparr>sig = 2 :: nat, pubKey = 3 :: nat\<rparr> fmempty, maxEntries = 1\<rparr> 5 6 7
     \<lparr>validSigs = fmupd 5 \<lparr>sig = 6, pubKey = 7\<rparr> (fmdrop 4 (fmupd 4 \<lparr>sig = 2, pubKey = 3\<rparr> fmempty)),
       maxEntries = 1\<rparr> \<and>
   len (fmdrop 4 (fmupd (4 :: nat) \<lparr>sig = 2 :: nat, pubKey = 3 :: nat\<rparr> fmempty)) + 1 =
     len (fmupd (4 :: nat) \<lparr>sig = 2 :: nat, pubKey = 3 :: nat\<rparr> fmempty) \<and>
   len (fmupd 5 \<lparr>sig = 6 :: nat, pubKey = 7 :: nat\<rparr>
          (fmdrop 4 (fmupd (4 :: nat) \<lparr>sig = 2, pubKey = 3\<rparr> fmempty))) = 1"
proof -
  let ?e = "\<lparr>sig = 2 :: nat, pubKey = 3 :: nat\<rparr>"
  let ?c0 = "NewSigCache 1 :: (nat, nat, nat) SigCache"
  let ?c1 = "\<lparr>validSigs = fmupd (4 :: nat) ?e fmempty, maxEntries = 1\<rparr>"
  let ?c2 = "\<lparr>validSigs = fmupd 5 \<lparr>sig = 6 :: nat, pubKey = 7 :: nat\<rparr> (fmdrop 4 (fmupd (4 :: nat) ?e fmempty)),
       maxEntries = 1\<rparr>"
  have l1: "len (fmupd (4 :: nat) ?e fmempty) = 1"
    by (simp add: len_def fcard_finsert_if fcard_fempty)
  have "Add ?c0 4 2 3 (?c0\<lparr>validSigs := fmupd 4 ?e (validSigs ?c0)\<rparr>)"
    by (rule Add_room) (simp_all add: NewSigCache_def len_fmempty)
  then have "Add ?c0 4 2 3 ?c1"
    by (simp add: NewSigCache_def)
  with reachable_new [of 1] have r: "reachable 1 ?c1"
    by (rule reachable_Add)
  have "Add ?c1 5 6 7 (?c1\<lparr>validSigs := fmupd 5 \<lparr>sig = 6, pubKey = 7\<rparr> (fmdrop 4 (validSigs ?c1))\<rparr>)"
    by (rule Add_evict) (simp_all add: l1)
  then have a: "Add ?c1 5 6 7 ?c2"
    by simp
  have l2: "len (validSigs ?c2) = 1"
    by (simp add: len_def fcard_finsert_if fcard_fempty)
  from SigCache_bounded [of 1 ?c1 5 6 7 ?c2] r a l1 l2
  show ?thesis by (simp add: len_fmdrop)
qed

end
